theory Spec2Isabelle
  imports Main "HOL-Library.Monad_Syntax"
begin

section \<open>Scope\<close>

text \<open>
  The programs of the repository create and arm POSIX interval timers and print what the
  signal handlers receive; the timers themselves, their expirations and overrun counts are
  the operating system's. The one function with logic of its own is
  \<^verbatim>\<open>itimerspecFromStr\<close> (\<^verbatim>\<open>itimerspec_from_str.c\<close>), which turns the text
  \<^verbatim>\<open>sec[/nsec][:int-sec[/int-nsec]]\<close> of a command-line argument into a
  \<^verbatim>\<open>struct itimerspec\<close>. It is embedded here with the memory it writes to, and the
  C library calls it makes (\<^verbatim>\<open>strchr\<close>, \<^verbatim>\<open>atoi\<close>) are modelled beside it.
\<close>

section \<open>Data model\<close>

text \<open>
  The two structures of \<^verbatim>\<open><time.h>\<close> that \<^verbatim>\<open>itimerspecFromStr\<close> fills in.
  \<^verbatim>\<open>tv_sec\<close> (\<^verbatim>\<open>time_t\<close>) and \<^verbatim>\<open>tv_nsec\<close> (\<^verbatim>\<open>long\<close>) are signed; every value
  stored in them by this code is the result of \<^verbatim>\<open>atoi\<close>, an \<^verbatim>\<open>int\<close>, so the
  conversion to the wider field keeps the value and the fields are plain integers here,
  with the range of \<^verbatim>\<open>int\<close> written out in \<open>atoi\<close> below.
\<close>

record timespec =
  tv_sec :: int
  tv_nsec :: int

record itimerspec =
  it_interval :: timespec
  it_value :: timespec

section \<open>Memory, pointers and C strings\<close>

text \<open>
  \<^verbatim>\<open>itimerspecFromStr\<close> writes into the buffer it parses, so the buffer is part of
  the state: a region of bytes, a pointer into it being an offset (or \<^verbatim>\<open>NULL\<close>).
  A read or write outside the region is a fault, the value \<open>None\<close>.
\<close>

type_synonym mem = "char list"

datatype ptr = NULL | Ptr nat

definition NUL :: char where
  "NUL = CHR 0x00"

text \<open>\<^verbatim>\<open>*p = c\<close>\<close>

definition poke :: "mem \<Rightarrow> nat \<Rightarrow> char \<Rightarrow> mem option" where
  "poke m p c = (if p < length m then Some (m[p := c]) else None)"

text \<open>
  \<^verbatim>\<open>strchr(s, c)\<close> of the C library: the first position from \<^verbatim>\<open>s\<close> on that holds
  \<^verbatim>\<open>c\<close>, looking no further than the terminating NUL; \<^verbatim>\<open>NULL\<close> when there is none.
\<close>

fun strchr_scan :: "char list \<Rightarrow> nat \<Rightarrow> char \<Rightarrow> ptr option" where
  "strchr_scan [] p c = None"
| "strchr_scan (x # xs) p c =
     (if x = c then Some (Ptr p)
      else if x = NUL then Some NULL
      else strchr_scan xs (Suc p) c)"

definition strchr :: "mem \<Rightarrow> nat \<Rightarrow> char \<Rightarrow> ptr option" where
  "strchr m p c = strchr_scan (drop p m) p c"

section \<open>atoi\<close>

text \<open>
  \<^verbatim>\<open>atoi(s)\<close> of the C library is \<^verbatim>\<open>(int) strtol(s, NULL, 10)\<close>: white space is
  skipped, one optional sign is read, then the longest run of decimal digits; whatever
  follows is ignored, and no digits at all give 0. On the LP64 hosts the timer calls of
  this repository run on, \<^verbatim>\<open>strtol\<close> saturates at \<^verbatim>\<open>LONG_MIN\<close> and \<^verbatim>\<open>LONG_MAX\<close>
  (64 bits) and the conversion to \<^verbatim>\<open>int\<close> keeps the low 32 bits, read as two's
  complement.
\<close>

definition isspace :: "char \<Rightarrow> bool" where
  "isspace c = (c = CHR '' '' \<or> c = CHR 0x09 \<or> c = CHR 0x0A \<or> c = CHR 0x0B
                \<or> c = CHR 0x0C \<or> c = CHR 0x0D)"

definition isdigit :: "char \<Rightarrow> bool" where
  "isdigit c = (48 \<le> (of_char c :: nat) \<and> (of_char c :: nat) \<le> 57)"

definition digit_val :: "char \<Rightarrow> int" where
  "digit_val c = int (of_char c) - 48"

fun strtol_digits :: "char list \<Rightarrow> int \<Rightarrow> int option" where
  "strtol_digits [] acc = None"
| "strtol_digits (x # xs) acc =
     (if isdigit x then strtol_digits xs (10 * acc + digit_val x) else Some acc)"

fun strtol_sign :: "char list \<Rightarrow> int option" where
  "strtol_sign [] = None"
| "strtol_sign (x # xs) =
     (if x = CHR ''-'' then map_option uminus (strtol_digits xs 0)
      else if x = CHR ''+'' then strtol_digits xs 0
      else strtol_digits (x # xs) 0)"

fun strtol_space :: "char list \<Rightarrow> int option" where
  "strtol_space [] = None"
| "strtol_space (x # xs) = (if isspace x then strtol_space xs else strtol_sign (x # xs))"

definition LONG_MAX :: int where
  "LONG_MAX = 2 ^ 63 - 1"

definition LONG_MIN :: int where
  "LONG_MIN = - (2 ^ 63)"

definition INT_MAX :: int where
  "INT_MAX = 2 ^ 31 - 1"

definition strtol_clamp :: "int \<Rightarrow> int" where
  "strtol_clamp v = (if LONG_MAX < v then LONG_MAX else if v < LONG_MIN then LONG_MIN else v)"

definition int_of_long :: "int \<Rightarrow> int" where
  "int_of_long v = (v + 2 ^ 31) mod 2 ^ 32 - 2 ^ 31"

definition atoi :: "mem \<Rightarrow> nat \<Rightarrow> int option" where
  "atoi m p = map_option (\<lambda>v. int_of_long (strtol_clamp v)) (strtol_space (drop p m))"

section \<open>itimerspecFromStr\<close>

text \<open>
  The function of \<^verbatim>\<open>itimerspec_from_str.c\<close>, statement by statement. \<open>str\<close> is the
  offset of the argument in the memory \<open>m\<close>; the result is the memory after the call
  together with the structure written through \<^verbatim>\<open>tsp\<close>.
\<close>

definition itimerspecFromStr :: "mem \<Rightarrow> nat \<Rightarrow> (mem \<times> itimerspec) option" where
  "itimerspecFromStr m str = do {
     cptr \<leftarrow> strchr m str CHR '':'';
     m1 \<leftarrow> (case cptr of NULL \<Rightarrow> Some m | Ptr c \<Rightarrow> poke m c NUL);
     sptr \<leftarrow> strchr m1 str CHR ''/'';
     m2 \<leftarrow> (case sptr of NULL \<Rightarrow> Some m1 | Ptr s \<Rightarrow> poke m1 s NUL);
     vsec \<leftarrow> atoi m2 str;
     vnsec \<leftarrow> (case sptr of NULL \<Rightarrow> Some 0 | Ptr s \<Rightarrow> atoi m2 (s + 1));
     (case cptr of
        NULL \<Rightarrow>
          Some (m2, \<lparr>it_interval = \<lparr>tv_sec = 0, tv_nsec = 0\<rparr>,
                    it_value = \<lparr>tv_sec = vsec, tv_nsec = vnsec\<rparr>\<rparr>)
      | Ptr c \<Rightarrow> do {
          sptr' \<leftarrow> strchr m2 (c + 1) CHR ''/'';
          m3 \<leftarrow> (case sptr' of NULL \<Rightarrow> Some m2 | Ptr s \<Rightarrow> poke m2 s NUL);
          isec \<leftarrow> atoi m3 (c + 1);
          insec \<leftarrow> (case sptr' of NULL \<Rightarrow> Some 0 | Ptr s \<Rightarrow> atoi m3 (s + 1));
          Some (m3, \<lparr>it_interval = \<lparr>tv_sec = isec, tv_nsec = insec\<rparr>,
                    it_value = \<lparr>tv_sec = vsec, tv_nsec = vnsec\<rparr>\<rparr>)
        })
   }"

text \<open>
  What a caller reads back from \<^verbatim>\<open>*tsp\<close> after \<^verbatim>\<open>itimerspecFromStr(str, tsp)\<close> when
  \<^verbatim>\<open>str\<close> is the C string \<open>s\<close> in a buffer of its own.
\<close>

definition parse :: "string \<Rightarrow> itimerspec option" where
  "parse s = map_option snd (itimerspecFromStr (s @ [NUL]) 0)"

section \<open>The same function, token by token\<close>

text \<open>
  The description the theorems relate the code to. \<open>atoi_str tok\<close> is \<open>atoi\<close> run on
  the token \<open>tok\<close> stored as a C string; \<open>before c s\<close> is the text of \<open>s\<close> up to the
  first \<open>c\<close>, \<open>after c s\<close> the text behind it, if there is one.
\<close>

definition atoi_str :: "string \<Rightarrow> int" where
  "atoi_str tok = (case atoi (tok @ [NUL]) 0 of None \<Rightarrow> 0 | Some v \<Rightarrow> v)"

definition before :: "char \<Rightarrow> string \<Rightarrow> string" where
  "before c s = takeWhile (\<lambda>x. x \<noteq> c) s"

definition after :: "char \<Rightarrow> string \<Rightarrow> string option" where
  "after c s = (case dropWhile (\<lambda>x. x \<noteq> c) s of [] \<Rightarrow> None | x # xs \<Rightarrow> Some xs)"

definition value_text :: "string \<Rightarrow> string" where
  "value_text s = before CHR '':'' s"

definition interval_text :: "string \<Rightarrow> string option" where
  "interval_text s = after CHR '':'' s"

definition sec_tok :: "string \<Rightarrow> string" where
  "sec_tok t = before CHR ''/'' t"

definition nsec_tok :: "string \<Rightarrow> string option" where
  "nsec_tok t = after CHR ''/'' t"

definition part_of :: "string \<Rightarrow> timespec" where
  "part_of t = \<lparr>tv_sec = atoi_str (sec_tok t),
               tv_nsec = (case nsec_tok t of None \<Rightarrow> 0 | Some b \<Rightarrow> atoi_str b)\<rparr>"

definition spec_of :: "string \<Rightarrow> itimerspec" where
  "spec_of s = \<lparr>it_interval = (case interval_text s of None \<Rightarrow> \<lparr>tv_sec = 0, tv_nsec = 0\<rparr>
                                | Some i \<Rightarrow> part_of i),
               it_value = part_of (value_text s)\<rparr>"

text \<open>The text left in the buffer: the separators found are overwritten with NUL.\<close>

definition cut_at :: "char \<Rightarrow> string \<Rightarrow> string" where
  "cut_at c s = before c s @ (case after c s of None \<Rightarrow> [] | Some r \<Rightarrow> NUL # r)"

definition scrub :: "string \<Rightarrow> string" where
  "scrub s = cut_at CHR ''/'' (value_text s)
             @ (case interval_text s of None \<Rightarrow> [] | Some i \<Rightarrow> NUL # cut_at CHR ''/'' i)"

text \<open>
  The number \<open>atoi\<close> reads off a token: the digits that follow the white space and the
  sign, with the sign applied.
\<close>

definition dec_val :: "string \<Rightarrow> int" where
  "dec_val ds = foldl (\<lambda>acc d. 10 * acc + digit_val d) 0 ds"

definition negative :: "string \<Rightarrow> bool" where
  "negative t = (case t of [] \<Rightarrow> False | x # xs \<Rightarrow> x = CHR ''-'')"

definition strip_sign :: "string \<Rightarrow> string" where
  "strip_sign t =
     (case t of [] \<Rightarrow> [] | x # xs \<Rightarrow> if x = CHR ''-'' \<or> x = CHR ''+'' then xs else x # xs)"

definition leading_digits :: "string \<Rightarrow> string" where
  "leading_digits tok = takeWhile isdigit (strip_sign (dropWhile isspace tok))"

definition strtol_val :: "string \<Rightarrow> int" where
  "strtol_val tok =
     (if negative (dropWhile isspace tok) then - dec_val (leading_digits tok)
      else dec_val (leading_digits tok))"

text \<open>
  An ASCII decimal integer, as the format of the specification text has it: decimal digits
  only. \<open>valid_integer\<close> also admits one sign in front.
\<close>

definition decimal :: "string \<Rightarrow> bool" where
  "decimal ds = list_all isdigit ds"

definition valid_integer :: "string \<Rightarrow> bool" where
  "valid_integer tok = (strip_sign tok \<noteq> [] \<and> list_all isdigit (strip_sign tok))"

section \<open>Strings and separators\<close>

lemma NUL_plain [simp]:
  "\<not> isdigit NUL" "\<not> isspace NUL" "NUL \<noteq> CHR ''-''" "NUL \<noteq> CHR ''+''"
  "NUL \<noteq> CHR ''/''" "NUL \<noteq> CHR '':''" "CHR ''/'' \<noteq> NUL" "CHR '':'' \<noteq> NUL"
  by (simp_all add: isdigit_def isspace_def NUL_def)

lemma before_absent: "c \<notin> set s \<Longrightarrow> before c s = s"
  by (induction s) (auto simp: before_def)

lemma after_absent: "c \<notin> set s \<Longrightarrow> after c s = None"
  by (induction s) (auto simp: after_def)

lemma before_first: "c \<notin> set a \<Longrightarrow> before c (a @ c # b) = a"
  by (simp add: before_def takeWhile_append)

lemma after_first: "c \<notin> set a \<Longrightarrow> after c (a @ c # b) = Some b"
  by (simp add: after_def dropWhile_append)

lemma cut_absent: "c \<notin> set s \<Longrightarrow> cut_at c s = s"
  by (simp add: cut_at_def before_absent after_absent)

lemma cut_first: "c \<notin> set a \<Longrightarrow> cut_at c (a @ c # b) = a @ NUL # b"
  by (simp add: cut_at_def before_first after_first)

lemma length_cut: "length (cut_at c s) = length s"
proof (cases "c \<in> set s")
  case True
  then obtain a b where "s = a @ c # b" "c \<notin> set a"
    by (auto dest: split_list_first)
  then show ?thesis by (simp add: cut_first)
next
  case False
  then show ?thesis by (simp add: cut_absent)
qed

section \<open>The library calls on a C string in memory\<close>

lemma strchr_scan_found:
  "c \<notin> set a \<Longrightarrow> NUL \<notin> set a \<Longrightarrow> strchr_scan (a @ c # rest) p c = Some (Ptr (p + length a))"
  by (induction a arbitrary: p) auto

lemma strchr_scan_none:
  "c \<notin> set a \<Longrightarrow> c \<noteq> NUL \<Longrightarrow> strchr_scan (a @ NUL # rest) p c = Some NULL"
  by (induction a arbitrary: p) auto

lemma strchr_found:
  "c \<notin> set a \<Longrightarrow> NUL \<notin> set a \<Longrightarrow> p = length pre \<Longrightarrow>
   strchr (pre @ a @ c # rest) p c = Some (Ptr (p + length a))"
  by (simp add: strchr_def strchr_scan_found)

lemma strchr_none:
  "c \<notin> set a \<Longrightarrow> c \<noteq> NUL \<Longrightarrow> p = length pre \<Longrightarrow>
   strchr (pre @ a @ NUL # rest) p c = Some NULL"
  by (simp add: strchr_def strchr_scan_none)

lemma poke_at:
  "p = length pre + length a \<Longrightarrow> poke (pre @ a @ x # rest) p c = Some (pre @ a @ c # rest)"
  by (simp add: poke_def list_update_append)

lemma strtol_digits_at:
  "strtol_digits (t @ NUL # rest) acc
   = Some (foldl (\<lambda>acc d. 10 * acc + digit_val d) acc (takeWhile isdigit t))"
  by (induction t arbitrary: acc) simp_all

lemma strtol_sign_at:
  "strtol_sign (t @ NUL # rest)
   = Some (if negative t then - dec_val (takeWhile isdigit (strip_sign t))
           else dec_val (takeWhile isdigit (strip_sign t)))"
proof (cases t)
  case Nil
  then show ?thesis by (simp add: negative_def strip_sign_def dec_val_def)
next
  case (Cons x xs)
  show ?thesis
    using strtol_digits_at [of xs rest 0] strtol_digits_at [of "x # xs" rest 0] Cons
    by (simp add: negative_def strip_sign_def dec_val_def)
qed

lemma strtol_space_at: "strtol_space (t @ NUL # rest) = Some (strtol_val t)"
proof (induction t)
  case Nil
  show ?case by (simp add: strtol_val_def leading_digits_def negative_def strip_sign_def dec_val_def)
next
  case (Cons x xs)
  show ?case
  proof (cases "isspace x")
    case True
    with Cons show ?thesis by (simp add: strtol_val_def leading_digits_def)
  next
    case False
    then show ?thesis
      using strtol_sign_at [of "x # xs" rest]
      by (simp add: strtol_val_def leading_digits_def)
  qed
qed

lemma atoi_at:
  "p = length pre \<Longrightarrow> atoi (pre @ tok @ NUL # rest) p = Some (atoi_str tok)"
  using strtol_space_at [of tok rest] strtol_space_at [of tok "[]"]
  by (simp add: atoi_def atoi_str_def)

lemma atoi_str_eq: "atoi_str tok = int_of_long (strtol_clamp (strtol_val tok))"
  using strtol_space_at [of tok "[]"] by (simp add: atoi_def atoi_str_def)

lemma int_of_long_range: "- (2 ^ 31) \<le> int_of_long v \<and> int_of_long v \<le> INT_MAX"
  by (simp add: int_of_long_def INT_MAX_def)

lemma int_of_long_id: "- (2 ^ 31) \<le> v \<Longrightarrow> v \<le> INT_MAX \<Longrightarrow> int_of_long (strtol_clamp v) = v"
  by (simp add: int_of_long_def strtol_clamp_def INT_MAX_def LONG_MAX_def LONG_MIN_def)

section \<open>The code against its token-level description\<close>

text \<open>One part of the text (initial expiration or interval): the four statements that
  find the \<^verbatim>\<open>/\<close>, overwrite it and convert the two tokens.\<close>

lemma part_block:
  assumes t: "NUL \<notin> set t" and p: "p = length pre" and m: "m = pre @ t @ NUL # rest"
  shows "do {
           sptr \<leftarrow> strchr m p CHR ''/'';
           m2 \<leftarrow> (case sptr of NULL \<Rightarrow> Some m | Ptr s \<Rightarrow> poke m s NUL);
           sec \<leftarrow> atoi m2 p;
           nsec \<leftarrow> (case sptr of NULL \<Rightarrow> Some 0 | Ptr s \<Rightarrow> atoi m2 (s + 1));
           k m2 sec nsec
         } = k (pre @ cut_at CHR ''/'' t @ NUL # rest)
               (tv_sec (part_of t)) (tv_nsec (part_of t))"
proof (cases "CHR ''/'' \<in> set t")
  case False
  then show ?thesis
    using p m
    by (simp add: strchr_none atoi_at cut_absent part_of_def sec_tok_def nsec_tok_def
        before_absent after_absent)
next
  case True
  then obtain a b where ab: "t = a @ CHR ''/'' # b" "CHR ''/'' \<notin> set a"
    by (auto dest: split_list_first)
  from t ab have a: "NUL \<notin> set a" by simp
  have nsec: "atoi (pre @ a @ NUL # b @ NUL # rest) (Suc (length pre + length a))
      = Some (atoi_str b)"
    using atoi_at [of "Suc (length pre + length a)" "pre @ a @ [NUL]" b rest] by simp
  have sec: "atoi (pre @ a @ NUL # b @ NUL # rest) (length pre) = Some (atoi_str a)"
    using atoi_at [of "length pre" pre a "b @ NUL # rest"] by simp
  show ?thesis
    using p m ab a nsec sec
    by (simp add: strchr_found poke_at cut_first part_of_def sec_tok_def nsec_tok_def
        before_first after_first)
qed

lemma itimerspecFromStr_refine:
  assumes s: "NUL \<notin> set s"
  shows "itimerspecFromStr (pre @ s @ NUL # rest) (length pre)
         = Some (pre @ scrub s @ NUL # rest, spec_of s)"
proof (cases "CHR '':'' \<in> set s")
  case False
  then show ?thesis
    unfolding itimerspecFromStr_def
    using s
    by (simp add: strchr_none part_block [OF s refl refl] scrub_def spec_of_def
        value_text_def interval_text_def before_absent after_absent)
next
  case True
  then obtain v i where vi: "s = v @ CHR '':'' # i" "CHR '':'' \<notin> set v"
    by (auto dest: split_list_first)
  from s vi have v: "NUL \<notin> set v" and i: "NUL \<notin> set i" by simp_all
  note first = part_block [OF v, of "length pre" pre _ "i @ NUL # rest", OF refl refl]
  have "Suc (length pre + length v) = length (pre @ cut_at CHR ''/'' v @ [NUL])"
    by (simp add: length_cut)
  moreover have "pre @ cut_at CHR ''/'' v @ NUL # i @ NUL # rest
      = (pre @ cut_at CHR ''/'' v @ [NUL]) @ i @ NUL # rest"
    by simp
  ultimately have second: "do {
           sptr \<leftarrow> strchr (pre @ cut_at CHR ''/'' v @ NUL # i @ NUL # rest)
                     (Suc (length pre + length v)) CHR ''/'';
           m2 \<leftarrow> (case sptr of NULL \<Rightarrow> Some (pre @ cut_at CHR ''/'' v @ NUL # i @ NUL # rest)
                   | Ptr s \<Rightarrow> poke (pre @ cut_at CHR ''/'' v @ NUL # i @ NUL # rest) s NUL);
           sec \<leftarrow> atoi m2 (Suc (length pre + length v));
           nsec \<leftarrow> (case sptr of NULL \<Rightarrow> Some 0 | Ptr s \<Rightarrow> atoi m2 (s + 1));
           k m2 sec nsec
         } = k ((pre @ cut_at CHR ''/'' v @ [NUL]) @ cut_at CHR ''/'' i @ NUL # rest)
               (tv_sec (part_of i)) (tv_nsec (part_of i))" for k
    by (rule part_block [OF i])
  show ?thesis
    unfolding itimerspecFromStr_def
    using vi v
    by (simp add: strchr_found poke_at first second scrub_def spec_of_def
        value_text_def interval_text_def before_first after_first)
qed

lemma parse_spec_of: "NUL \<notin> set s \<Longrightarrow> parse s = Some (spec_of s)"
  using itimerspecFromStr_refine [of s "[]" "[]"] by (simp add: parse_def)

text \<open>The structure does not depend on where in memory the string lies.\<close>

lemma parse_anywhere:
  "NUL \<notin> set s \<Longrightarrow>
   map_option snd (itimerspecFromStr (pre @ s @ NUL # rest) (length pre)) = parse s"
  by (simp add: itimerspecFromStr_refine parse_spec_of)

section \<open>Finding separators in composed text\<close>

lemma before_Nil [simp]: "before c [] = []"
  by (simp add: before_def)

lemma before_Cons [simp]: "before c (x # xs) = (if x = c then [] else x # before c xs)"
  by (simp add: before_def)

lemma before_append [simp]: "c \<notin> set a \<Longrightarrow> before c (a @ b) = a @ before c b"
  by (induction a) auto

lemma after_Nil [simp]: "after c [] = None"
  by (simp add: after_def)

lemma after_Cons [simp]: "after c (x # xs) = (if x = c then Some xs else after c xs)"
  by (simp add: after_def)

lemma after_append [simp]: "c \<notin> set a \<Longrightarrow> after c (a @ b) = after c b"
  by (induction a) auto

section \<open>Decimal tokens\<close>

lemma not_digit [simp]:
  "\<not> isdigit CHR '':''" "\<not> isdigit CHR ''/''" "\<not> isdigit CHR ''-''" "\<not> isdigit CHR ''+''"
  by (simp_all add: isdigit_def)

lemma isdigit_not_isspace: "isdigit c \<Longrightarrow> \<not> isspace c"
  by (auto simp: isdigit_def isspace_def)

lemma decimal_set: "decimal ds \<Longrightarrow> c \<in> set ds \<Longrightarrow> isdigit c"
  by (simp add: decimal_def list_all_iff)

lemma decimal_no_sep:
  assumes "decimal ds"
  shows "CHR '':'' \<notin> set ds" "CHR ''/'' \<notin> set ds" "NUL \<notin> set ds"
  using decimal_set [OF assms] not_digit NUL_plain by blast+

lemma decimal_leading: "decimal ds \<Longrightarrow> leading_digits ds = ds \<and> \<not> negative (dropWhile isspace ds)"
proof (cases ds)
  case Nil
  then show ?thesis by (simp add: leading_digits_def strip_sign_def negative_def)
next
  case (Cons x xs)
  assume d: "decimal ds"
  with Cons have x: "isdigit x" and xs: "\<forall>c\<in>set xs. isdigit c"
    by (simp_all add: decimal_def list_all_iff)
  from x have "\<not> isspace x" "x \<noteq> CHR ''-''" "x \<noteq> CHR ''+''"
    using isdigit_not_isspace not_digit by blast+
  with Cons x xs show ?thesis
    by (simp add: leading_digits_def strip_sign_def negative_def)
qed

lemma digit_val_nonneg: "isdigit c \<Longrightarrow> 0 \<le> digit_val c"
  by (simp add: isdigit_def digit_val_def)

lemma foldl_digits_nonneg:
  "list_all isdigit ds \<Longrightarrow> 0 \<le> acc \<Longrightarrow> 0 \<le> foldl (\<lambda>acc d. 10 * acc + digit_val d) acc ds"
  by (induction ds arbitrary: acc) (simp_all add: digit_val_nonneg)

lemma dec_val_nonneg: "decimal ds \<Longrightarrow> 0 \<le> dec_val ds"
  by (simp add: decimal_def dec_val_def foldl_digits_nonneg)

lemma atoi_str_decimal: "decimal ds \<Longrightarrow> dec_val ds \<le> INT_MAX \<Longrightarrow> atoi_str ds = dec_val ds"
  using dec_val_nonneg [of ds] decimal_leading [of ds]
  by (simp add: atoi_str_eq strtol_val_def int_of_long_id)

lemma atoi_str_minus:
  assumes "decimal ds" "dec_val ds \<le> 2 ^ 31"
  shows "atoi_str (CHR ''-'' # ds) = - dec_val ds"
proof -
  have "leading_digits (CHR ''-'' # ds) = ds"
    using assms(1) by (simp add: leading_digits_def strip_sign_def isspace_def decimal_def list_all_iff)
  moreover have "negative (dropWhile isspace (CHR ''-'' # ds))"
    by (simp add: negative_def isspace_def)
  ultimately have "strtol_val (CHR ''-'' # ds) = - dec_val ds"
    by (simp add: strtol_val_def)
  then show ?thesis
    using assms(2) dec_val_nonneg [OF assms(1)]
    by (simp add: atoi_str_eq int_of_long_id INT_MAX_def)
qed

lemma atoi_str_no_digits: "leading_digits tok = [] \<Longrightarrow> atoi_str tok = 0"
  by (simp add: atoi_str_eq strtol_val_def dec_val_def int_of_long_def strtol_clamp_def
      LONG_MAX_def LONG_MIN_def)

lemma atoi_str_range: "- (2 ^ 31) \<le> atoi_str tok \<and> atoi_str tok \<le> INT_MAX"
  by (simp only: atoi_str_eq int_of_long_range)

section \<open>Shapes of the specification text\<close>

lemma spec_of_value: "CHR '':'' \<notin> set a \<Longrightarrow> it_value (spec_of (a @ CHR '':'' # b)) = part_of a"
  by (simp add: spec_of_def value_text_def)

lemma part_of_plain:
  "CHR ''/'' \<notin> set a \<Longrightarrow> part_of a = \<lparr>tv_sec = atoi_str a, tv_nsec = 0\<rparr>"
  by (simp add: part_of_def sec_tok_def nsec_tok_def before_absent after_absent)

lemma part_of_pair:
  "CHR ''/'' \<notin> set a \<Longrightarrow> part_of (a @ CHR ''/'' # b) = \<lparr>tv_sec = atoi_str a, tv_nsec = atoi_str b\<rparr>"
  by (simp add: part_of_def sec_tok_def nsec_tok_def)

lemma spec_of_single:
  "CHR '':'' \<notin> set a \<Longrightarrow>
   spec_of a = \<lparr>it_interval = \<lparr>tv_sec = 0, tv_nsec = 0\<rparr>, it_value = part_of a\<rparr>"
  by (simp add: spec_of_def value_text_def interval_text_def before_absent after_absent)

lemma spec_of_both:
  "CHR '':'' \<notin> set a \<Longrightarrow>
   spec_of (a @ CHR '':'' # b) = \<lparr>it_interval = part_of b, it_value = part_of a\<rparr>"
  by (simp add: spec_of_def value_text_def interval_text_def)

section \<open>Well-formed specification text\<close>

text \<open>
  Claim C1, as the code has it. For every specification text \<open>S/N:I/J\<close> whose four
  components are strings of ASCII decimal digits with values of at most \<open>INT_MAX\<close>
  (2147483647), the structure filled in has initial expiration \<open>(S, N)\<close> and interval
  \<open>(I, J)\<close>; where an optional component is left out (the \<open>/N\<close>, the \<open>/J\<close>, or
  the whole \<open>:I/J\<close>), its field is 0. The bound is needed: the tokens are converted by
  \<open>atoi\<close>, whose result is an \<^verbatim>\<open>int\<close>.
\<close>

theorem parse_decimal_text:
  assumes s: "decimal s" "dec_val s \<le> INT_MAX"
    and n: "decimal n" "dec_val n \<le> INT_MAX"
    and i: "decimal i" "dec_val i \<le> INT_MAX"
    and j: "decimal j" "dec_val j \<le> INT_MAX"
  shows "parse (s @ CHR ''/'' # n @ CHR '':'' # i @ CHR ''/'' # j)
           = Some \<lparr>it_interval = \<lparr>tv_sec = dec_val i, tv_nsec = dec_val j\<rparr>,
                   it_value = \<lparr>tv_sec = dec_val s, tv_nsec = dec_val n\<rparr>\<rparr>
       \<and> parse (s @ CHR '':'' # i @ CHR ''/'' # j)
           = Some \<lparr>it_interval = \<lparr>tv_sec = dec_val i, tv_nsec = dec_val j\<rparr>,
                   it_value = \<lparr>tv_sec = dec_val s, tv_nsec = 0\<rparr>\<rparr>
       \<and> parse (s @ CHR ''/'' # n @ CHR '':'' # i)
           = Some \<lparr>it_interval = \<lparr>tv_sec = dec_val i, tv_nsec = 0\<rparr>,
                   it_value = \<lparr>tv_sec = dec_val s, tv_nsec = dec_val n\<rparr>\<rparr>
       \<and> parse (s @ CHR '':'' # i)
           = Some \<lparr>it_interval = \<lparr>tv_sec = dec_val i, tv_nsec = 0\<rparr>,
                   it_value = \<lparr>tv_sec = dec_val s, tv_nsec = 0\<rparr>\<rparr>
       \<and> parse (s @ CHR ''/'' # n)
           = Some \<lparr>it_interval = \<lparr>tv_sec = 0, tv_nsec = 0\<rparr>,
                   it_value = \<lparr>tv_sec = dec_val s, tv_nsec = dec_val n\<rparr>\<rparr>
       \<and> parse s
           = Some \<lparr>it_interval = \<lparr>tv_sec = 0, tv_nsec = 0\<rparr>,
                   it_value = \<lparr>tv_sec = dec_val s, tv_nsec = 0\<rparr>\<rparr>"
proof -
  note sep = decimal_no_sep [OF s(1)] decimal_no_sep [OF n(1)]
    decimal_no_sep [OF i(1)] decimal_no_sep [OF j(1)]
  note val = atoi_str_decimal [OF s] atoi_str_decimal [OF n]
    atoi_str_decimal [OF i] atoi_str_decimal [OF j]
  have vs: "part_of s = \<lparr>tv_sec = dec_val s, tv_nsec = 0\<rparr>"
    by (simp add: part_of_plain sep val)
  have vsn: "part_of (s @ CHR ''/'' # n) = \<lparr>tv_sec = dec_val s, tv_nsec = dec_val n\<rparr>"
    by (simp add: part_of_pair sep val)
  have vi: "part_of i = \<lparr>tv_sec = dec_val i, tv_nsec = 0\<rparr>"
    by (simp add: part_of_plain sep val)
  have vij: "part_of (i @ CHR ''/'' # j) = \<lparr>tv_sec = dec_val i, tv_nsec = dec_val j\<rparr>"
    by (simp add: part_of_pair sep val)
  have 1: "parse (s @ CHR ''/'' # n @ CHR '':'' # i @ CHR ''/'' # j)
      = Some \<lparr>it_interval = part_of (i @ CHR ''/'' # j), it_value = part_of (s @ CHR ''/'' # n)\<rparr>"
    using spec_of_both [of "s @ CHR ''/'' # n" "i @ CHR ''/'' # j"]
    by (simp add: parse_spec_of sep)
  have 2: "parse (s @ CHR '':'' # i @ CHR ''/'' # j)
      = Some \<lparr>it_interval = part_of (i @ CHR ''/'' # j), it_value = part_of s\<rparr>"
    using spec_of_both [of s "i @ CHR ''/'' # j"]
    by (simp add: parse_spec_of sep)
  have 3: "parse (s @ CHR ''/'' # n @ CHR '':'' # i)
      = Some \<lparr>it_interval = part_of i, it_value = part_of (s @ CHR ''/'' # n)\<rparr>"
    using spec_of_both [of "s @ CHR ''/'' # n" i]
    by (simp add: parse_spec_of sep)
  have 4: "parse (s @ CHR '':'' # i) = Some \<lparr>it_interval = part_of i, it_value = part_of s\<rparr>"
    using spec_of_both [of s i]
    by (simp add: parse_spec_of sep)
  have 5: "parse (s @ CHR ''/'' # n)
      = Some \<lparr>it_interval = \<lparr>tv_sec = 0, tv_nsec = 0\<rparr>, it_value = part_of (s @ CHR ''/'' # n)\<rparr>"
    using spec_of_single [of "s @ CHR ''/'' # n"]
    by (simp add: parse_spec_of sep)
  have 6: "parse s = Some \<lparr>it_interval = \<lparr>tv_sec = 0, tv_nsec = 0\<rparr>, it_value = part_of s\<rparr>"
    using spec_of_single [of s]
    by (simp add: parse_spec_of sep)
  show ?thesis
    by (simp only: 1 2 3 4 5 6 vs vsn vi vij simp_thms)
qed

text \<open>The two examples of the claim are instances.\<close>

theorem parse_decimal_text_witness:
  "decimal ''5'' \<and> dec_val ''5'' \<le> INT_MAX
   \<and> decimal ''500000000'' \<and> dec_val ''500000000'' \<le> INT_MAX
   \<and> decimal ''2'' \<and> dec_val ''2'' \<le> INT_MAX
   \<and> decimal ''100000000'' \<and> dec_val ''100000000'' \<le> INT_MAX
   \<and> parse ''5/500000000:2/100000000''
       = Some \<lparr>it_interval = \<lparr>tv_sec = 2, tv_nsec = 100000000\<rparr>,
               it_value = \<lparr>tv_sec = 5, tv_nsec = 500000000\<rparr>\<rparr>
   \<and> parse ''5''
       = Some \<lparr>it_interval = \<lparr>tv_sec = 0, tv_nsec = 0\<rparr>,
               it_value = \<lparr>tv_sec = 5, tv_nsec = 0\<rparr>\<rparr>"
proof -
  have d: "decimal ''5''" "decimal ''500000000''" "decimal ''2''" "decimal ''100000000''"
    by (simp_all add: decimal_def isdigit_def)
  have v: "dec_val ''5'' = 5" "dec_val ''500000000'' = 500000000" "dec_val ''2'' = 2"
    "dec_val ''100000000'' = 100000000"
    by (simp_all add: dec_val_def digit_val_def)
  have b: "dec_val ''5'' \<le> INT_MAX" "dec_val ''500000000'' \<le> INT_MAX"
    "dec_val ''2'' \<le> INT_MAX" "dec_val ''100000000'' \<le> INT_MAX"
    by (simp_all add: v INT_MAX_def)
  show ?thesis
    using parse_decimal_text [OF d(1) b(1) d(2) b(2) d(3) b(3) d(4) b(4)] d b
    by (simp add: v)
qed

text \<open>
  Without the bound the statement fails: 3000000000 is a decimal integer, and a value the
  seconds of a timer specification may take, but \<open>atoi\<close> returns it reduced to 32 bits.
\<close>

theorem parse_large_seconds_counterexample:
  "parse ''3000000000/0:0/0''
     = Some \<lparr>it_interval = \<lparr>tv_sec = 0, tv_nsec = 0\<rparr>,
             it_value = \<lparr>tv_sec = - 1294967296, tv_nsec = 0\<rparr>\<rparr>
   \<and> parse ''3000000000/0:0/0''
     \<noteq> Some \<lparr>it_interval = \<lparr>tv_sec = 0, tv_nsec = 0\<rparr>,
             it_value = \<lparr>tv_sec = 3000000000, tv_nsec = 0\<rparr>\<rparr>"
  by code_simp

section \<open>Nanoseconds are not normalised\<close>

lemma part_of_range: "tv_nsec (part_of t) \<le> INT_MAX"
  using atoi_str_range by (simp add: part_of_def INT_MAX_def split: option.split)

text \<open>
  Claim C5, as the code has it. For every input string, each field is exactly what
  \<open>atoi\<close> reads off its token (0 for a token that is absent): the nanoseconds are stored
  as read and nothing is carried into the seconds. So a nanoseconds field is below
  1000000000 only when its token's value is; what holds of every input is the bound of
  \<^verbatim>\<open>int\<close>, \<open>INT_MAX\<close> = 2147483647.
\<close>

theorem nanoseconds_stored_as_read:
  assumes "NUL \<notin> set s"
  shows "\<exists>r. parse s = Some r
          \<and> tv_sec (it_value r) = atoi_str (sec_tok (value_text s))
          \<and> tv_nsec (it_value r)
              = (case nsec_tok (value_text s) of None \<Rightarrow> 0 | Some b \<Rightarrow> atoi_str b)
          \<and> tv_sec (it_interval r)
              = (case interval_text s of None \<Rightarrow> 0 | Some i \<Rightarrow> atoi_str (sec_tok i))
          \<and> tv_nsec (it_interval r)
              = (case interval_text s of None \<Rightarrow> 0
                 | Some i \<Rightarrow> (case nsec_tok i of None \<Rightarrow> 0 | Some b \<Rightarrow> atoi_str b))
          \<and> tv_nsec (it_value r) \<le> INT_MAX \<and> tv_nsec (it_interval r) \<le> INT_MAX"
proof -
  have "tv_nsec (it_value (spec_of s)) \<le> INT_MAX"
    by (simp add: spec_of_def part_of_range)
  moreover have "(0 :: int) \<le> INT_MAX"
    by (simp add: INT_MAX_def)
  then have "tv_nsec (it_interval (spec_of s)) \<le> INT_MAX"
    by (simp add: spec_of_def part_of_range split: option.split)
  ultimately show ?thesis
    using parse_spec_of [OF assms]
    by (simp add: spec_of_def part_of_def split: option.split)
qed

text \<open>Two nanoseconds tokens of a billion and more, stored unchanged beside their seconds.\<close>

theorem nanoseconds_stored_as_read_witness:
  "NUL \<notin> set ''1/2000000000:3/1999999999''
   \<and> (\<exists>r. parse ''1/2000000000:3/1999999999'' = Some r
        \<and> tv_sec (it_value r) = 1 \<and> tv_nsec (it_value r) = 2000000000
        \<and> tv_sec (it_interval r) = 3 \<and> tv_nsec (it_interval r) = 1999999999
        \<and> tv_nsec (it_value r) \<le> INT_MAX \<and> tv_nsec (it_interval r) \<le> INT_MAX)"
proof -
  have h: "NUL \<notin> set ''1/2000000000:3/1999999999''"
    by (simp add: NUL_def)
  have t: "value_text ''1/2000000000:3/1999999999'' = ''1/2000000000''"
    "interval_text ''1/2000000000:3/1999999999'' = Some ''3/1999999999''"
    "sec_tok ''1/2000000000'' = ''1''" "nsec_tok ''1/2000000000'' = Some ''2000000000''"
    "sec_tok ''3/1999999999'' = ''3''" "nsec_tok ''3/1999999999'' = Some ''1999999999''"
    by (simp_all add: value_text_def interval_text_def sec_tok_def nsec_tok_def)
  have v: "atoi_str ''1'' = 1" "atoi_str ''2000000000'' = 2000000000"
    "atoi_str ''3'' = 3" "atoi_str ''1999999999'' = 1999999999"
    by code_simp+
  show ?thesis
    using h nanoseconds_stored_as_read [OF h] by (simp add: t v)
qed

text \<open>
  The claim as written, a nanoseconds field below 1000000000 on every input with the
  excess moved into the seconds, fails on \<^verbatim>\<open>0/2000000000\<close>: the seconds stay 0.
\<close>

theorem nanoseconds_overflow_counterexample:
  "parse ''0/2000000000''
     = Some \<lparr>it_interval = \<lparr>tv_sec = 0, tv_nsec = 0\<rparr>,
             it_value = \<lparr>tv_sec = 0, tv_nsec = 2000000000\<rparr>\<rparr>
   \<and> \<not> (2000000000 :: int) < 1000000000"
  by code_simp

section \<open>The input buffer\<close>

lemma cut_changes: "list_all2 (\<lambda>x y. y = x \<or> y = NUL \<and> x = c) s (cut_at c s)"
proof (cases "c \<in> set s")
  case True
  then obtain a b where ab: "s = a @ c # b" "c \<notin> set a"
    by (auto dest: split_list_first)
  show ?thesis
    unfolding ab(1) cut_first [OF ab(2)]
    by (intro list_all2_appendI list_all2_refl list.rel_intros) simp_all
next
  case False
  then show ?thesis by (simp add: cut_absent list_all2_refl)
qed

lemma cut_same: "c \<noteq> NUL \<Longrightarrow> cut_at c s = s \<longleftrightarrow> c \<notin> set s"
proof (cases "c \<in> set s")
  case True
  assume c: "c \<noteq> NUL"
  from True obtain a b where ab: "s = a @ c # b" "c \<notin> set a"
    by (auto dest: split_list_first)
  with c show ?thesis by (auto simp: cut_first)
next
  case False
  then show ?thesis by (simp add: cut_absent)
qed

lemma scrub_changes:
  "list_all2 (\<lambda>x y. y = x \<or> y = NUL \<and> (x = CHR '':'' \<or> x = CHR ''/'')) s (scrub s)"
proof -
  let ?P = "\<lambda>x y. y = x \<or> y = NUL \<and> (x = CHR '':'' \<or> x = CHR ''/'')"
  have part: "list_all2 ?P t (cut_at CHR ''/'' t)" for t
    by (rule list_all2_mono [OF cut_changes]) blast
  show ?thesis
  proof (cases "CHR '':'' \<in> set s")
    case True
    then obtain v i where vi: "s = v @ CHR '':'' # i" "CHR '':'' \<notin> set v"
      by (auto dest: split_list_first)
    have "list_all2 ?P (v @ CHR '':'' # i) (cut_at CHR ''/'' v @ NUL # cut_at CHR ''/'' i)"
      by (intro list_all2_appendI list.rel_intros part) simp
    then show ?thesis
      using vi by (simp add: scrub_def value_text_def interval_text_def)
  next
    case False
    then show ?thesis
      using part [of s]
      by (simp add: scrub_def value_text_def interval_text_def before_absent after_absent)
  qed
qed

lemma scrub_same: "scrub s = s \<longleftrightarrow> CHR '':'' \<notin> set s \<and> CHR ''/'' \<notin> set s"
proof (cases "CHR '':'' \<in> set s")
  case True
  then obtain v i where vi: "s = v @ CHR '':'' # i" "CHR '':'' \<notin> set v"
    by (auto dest: split_list_first)
  have "cut_at CHR ''/'' v @ NUL # cut_at CHR ''/'' i \<noteq> v @ CHR '':'' # i"
    by (simp add: append_eq_append_conv length_cut)
  then show ?thesis
    using vi True by (simp add: scrub_def value_text_def interval_text_def)
next
  case False
  then show ?thesis
    by (simp add: scrub_def value_text_def interval_text_def before_absent after_absent cut_same)
qed

text \<open>
  Claim C6, as the code has it. On every NUL-terminated string, wherever it lies in memory,
  the call returns, and the structure it returns is that for the string alone (it is total,
  and a function of the text); but it is not free of side effects. The memory afterwards
  is the memory before with the string \<open>s\<close> replaced by \<open>scrub s\<close>: the first
  \<^verbatim>\<open>:\<close> of the text, the first \<^verbatim>\<open>/\<close> before it (of the whole text, if there is no
  \<^verbatim>\<open>:\<close>) and the first \<^verbatim>\<open>/\<close> behind it hold NUL, and every other byte of the
  string, the terminator, and the bytes before and behind the string are as they were.
  So each byte that changed was a separator and is now NUL, and the text is unchanged if
  and only if it contains no \<^verbatim>\<open>:\<close> and no \<^verbatim>\<open>/\<close>.
\<close>

theorem itimerspecFromStr_buffer:
  assumes "NUL \<notin> set s"
  shows "\<exists>r. itimerspecFromStr (pre @ s @ NUL # rest) (length pre)
               = Some (pre @ scrub s @ NUL # rest, r)
          \<and> parse s = Some r
          \<and> list_all2 (\<lambda>x y. y = x \<or> y = NUL \<and> (x = CHR '':'' \<or> x = CHR ''/''))
               s (scrub s)
          \<and> (scrub s = s \<longleftrightarrow> CHR '':'' \<notin> set s \<and> CHR ''/'' \<notin> set s)"
  using itimerspecFromStr_refine [OF assms, of pre rest] parse_spec_of [OF assms]
    scrub_changes [of s] scrub_same [of s]
  by blast

text \<open>
  In \<^verbatim>\<open>1/2/3:4/5/6\<close> the \<^verbatim>\<open>:\<close> and the first \<^verbatim>\<open>/\<close> of each part are overwritten;
  the second \<^verbatim>\<open>/\<close> of each part, and the bytes around the string, stay.
\<close>

theorem itimerspecFromStr_buffer_witness:
  "NUL \<notin> set ''1/2/3:4/5/6''
   \<and> scrub ''1/2/3:4/5/6'' = ''1'' @ NUL # ''2/3'' @ NUL # ''4'' @ NUL # ''5/6''
   \<and> (\<exists>r. itimerspecFromStr (''ab'' @ ''1/2/3:4/5/6'' @ NUL # ''cd'') (length ''ab'')
             = Some (''ab'' @ (''1'' @ NUL # ''2/3'' @ NUL # ''4'' @ NUL # ''5/6'') @ NUL # ''cd'', r)
        \<and> parse ''1/2/3:4/5/6'' = Some r)"
proof -
  have h: "NUL \<notin> set ''1/2/3:4/5/6''"
    by (simp add: NUL_def)
  have b: "scrub ''1/2/3:4/5/6'' = ''1'' @ NUL # ''2/3'' @ NUL # ''4'' @ NUL # ''5/6''"
    by (simp add: scrub_def cut_at_def value_text_def interval_text_def)
  show ?thesis
    using h b itimerspecFromStr_buffer [OF h, of "''ab''" "''cd''"] by auto
qed

text \<open>
  The claim as written, that the call leaves the input text unchanged, fails on
  \<^verbatim>\<open>5:2\<close>: the \<^verbatim>\<open>:\<close> is overwritten.
\<close>

theorem input_text_changed_counterexample:
  "map_option fst (itimerspecFromStr (''5:2'' @ [NUL]) 0) = Some (''5'' @ [NUL] @ ''2'' @ [NUL])
   \<and> map_option fst (itimerspecFromStr (''5:2'' @ [NUL]) 0) \<noteq> Some (''5:2'' @ [NUL])"
  by code_simp

section \<open>Tokens that are not numbers\<close>

text \<open>
  Claim C7, as the code has it. On every NUL-terminated string the call returns a
  structure, there is no error path; and a token in which no decimal digit follows the
  optional white space and the optional sign (the empty token, non-numeric text) gives 0
  in its field.
\<close>

theorem tokens_without_digits_yield_zero:
  assumes "NUL \<notin> set s"
  shows "\<exists>r. parse s = Some r
          \<and> (leading_digits (sec_tok (value_text s)) = [] \<longrightarrow> tv_sec (it_value r) = 0)
          \<and> (\<forall>b. nsec_tok (value_text s) = Some b \<longrightarrow> leading_digits b = []
                \<longrightarrow> tv_nsec (it_value r) = 0)
          \<and> (\<forall>i. interval_text s = Some i \<longrightarrow> leading_digits (sec_tok i) = []
                \<longrightarrow> tv_sec (it_interval r) = 0)
          \<and> (\<forall>i b. interval_text s = Some i \<longrightarrow> nsec_tok i = Some b \<longrightarrow> leading_digits b = []
                \<longrightarrow> tv_nsec (it_interval r) = 0)"
  using parse_spec_of [OF assms]
  by (simp add: spec_of_def part_of_def atoi_str_no_digits)

theorem tokens_without_digits_yield_zero_witness:
  "NUL \<notin> set ''abc/:x/-''
   \<and> (\<exists>r. parse ''abc/:x/-'' = Some r
        \<and> tv_sec (it_value r) = 0 \<and> tv_nsec (it_value r) = 0
        \<and> tv_sec (it_interval r) = 0 \<and> tv_nsec (it_interval r) = 0)"
proof -
  have h: "NUL \<notin> set ''abc/:x/-''"
    by (simp add: NUL_def)
  have t: "value_text ''abc/:x/-'' = ''abc/''" "interval_text ''abc/:x/-'' = Some ''x/-''"
    "sec_tok ''abc/'' = ''abc''" "nsec_tok ''abc/'' = Some ''''"
    "sec_tok ''x/-'' = ''x''" "nsec_tok ''x/-'' = Some ''-''"
    by (simp_all add: value_text_def interval_text_def sec_tok_def nsec_tok_def)
  have d: "leading_digits ''abc'' = []" "leading_digits '''' = []"
    "leading_digits ''x'' = []" "leading_digits ''-'' = []"
    by (simp_all add: leading_digits_def strip_sign_def isspace_def isdigit_def)
  show ?thesis
    using h tokens_without_digits_yield_zero [OF h] by (simp add: t d)
qed

text \<open>
  The claim as written, 0 for every token that is not a valid integer, fails on
  \<^verbatim>\<open>5x\<close>, which is not an integer: \<open>atoi\<close> converts the leading digits and ignores the
  rest.
\<close>

theorem trailing_text_counterexample:
  "\<not> valid_integer ''5x''
   \<and> parse ''5x'' = Some \<lparr>it_interval = \<lparr>tv_sec = 0, tv_nsec = 0\<rparr>,
                         it_value = \<lparr>tv_sec = 5, tv_nsec = 0\<rparr>\<rparr>
   \<and> (5 :: int) \<noteq> 0"
  by code_simp

section \<open>The separator search of the initial expiration\<close>

text \<open>
  Claim C9. A string containing \<^verbatim>\<open>:\<close> is \<open>a @ CHR '':'' # b\<close> with no \<^verbatim>\<open>:\<close> in
  \<open>a\<close>. The initial expiration is then determined by \<open>a\<close> alone, the text before the
  first \<^verbatim>\<open>:\<close>, and the interval by \<open>b\<close>; when \<open>a\<close> has no \<^verbatim>\<open>/\<close>, the nanoseconds
  of the initial expiration are 0, whatever \<^verbatim>\<open>/\<close> the interval part holds. The
  instance \<^verbatim>\<open>5:2/7\<close> gives initial expiration (5, 0) and interval (2, 7).
\<close>

theorem slash_search_confined:
  assumes "NUL \<notin> set a" and "NUL \<notin> set b" and "CHR '':'' \<notin> set a"
  shows "parse (a @ CHR '':'' # b) = Some \<lparr>it_interval = part_of b, it_value = part_of a\<rparr>
         \<and> (CHR ''/'' \<notin> set a \<longrightarrow> part_of a = \<lparr>tv_sec = atoi_str a, tv_nsec = 0\<rparr>)"
  using assms by (simp add: parse_spec_of spec_of_both part_of_plain)

theorem slash_search_confined_witness:
  "NUL \<notin> set ''5'' \<and> NUL \<notin> set ''2/7'' \<and> CHR '':'' \<notin> set ''5'' \<and> CHR ''/'' \<notin> set ''5''
   \<and> parse ''5:2/7'' = Some \<lparr>it_interval = \<lparr>tv_sec = 2, tv_nsec = 7\<rparr>,
                            it_value = \<lparr>tv_sec = 5, tv_nsec = 0\<rparr>\<rparr>"
proof -
  have h: "NUL \<notin> set ''5''" "NUL \<notin> set ''2/7''" "CHR '':'' \<notin> set ''5''"
    by (simp_all add: NUL_def)
  have v: "atoi_str ''5'' = 5" "atoi_str ''2'' = 2" "atoi_str ''7'' = 7"
    by code_simp+
  have p: "part_of ''2/7'' = \<lparr>tv_sec = 2, tv_nsec = 7\<rparr>"
    by (simp add: part_of_def sec_tok_def nsec_tok_def v)
  show ?thesis
    using h slash_search_confined [OF h] by (simp add: p v)
qed

section \<open>Negative numbers\<close>

text \<open>
  Claim C10. Neither sign nor range of a token is checked: for all decimal digit strings
  \<open>s\<close> and \<open>n\<close> with values from 1 to 2147483648, the text \<open>-s/-n\<close> is parsed to
  seconds \<open>- s\<close> and nanoseconds \<open>- n\<close>, both negative. The instance \<^verbatim>\<open>-5/-1\<close>
  gives seconds -5 and nanoseconds -1.
\<close>

theorem negative_fields_accepted:
  assumes "decimal s" and "0 < dec_val s" and "dec_val s \<le> 2 ^ 31"
    and "decimal n" and "0 < dec_val n" and "dec_val n \<le> 2 ^ 31"
  shows "\<exists>r. parse (CHR ''-'' # s @ CHR ''/'' # CHR ''-'' # n) = Some r
          \<and> tv_sec (it_value r) = - dec_val s \<and> tv_nsec (it_value r) = - dec_val n
          \<and> tv_sec (it_value r) < 0 \<and> tv_nsec (it_value r) < 0"
proof -
  note sep = decimal_no_sep [OF assms(1)] decimal_no_sep [OF assms(4)]
  have "parse (CHR ''-'' # s @ CHR ''/'' # CHR ''-'' # n)
      = Some \<lparr>it_interval = \<lparr>tv_sec = 0, tv_nsec = 0\<rparr>,
              it_value = part_of ((CHR ''-'' # s) @ CHR ''/'' # CHR ''-'' # n)\<rparr>"
    using spec_of_single [of "CHR ''-'' # s @ CHR ''/'' # CHR ''-'' # n"]
    by (simp add: parse_spec_of sep)
  moreover have "part_of ((CHR ''-'' # s) @ CHR ''/'' # CHR ''-'' # n)
      = \<lparr>tv_sec = - dec_val s, tv_nsec = - dec_val n\<rparr>"
    using assms part_of_pair [of "CHR ''-'' # s" "CHR ''-'' # n"]
    by (simp add: sep atoi_str_minus)
  ultimately show ?thesis
    using assms by simp
qed

theorem negative_fields_accepted_witness:
  "decimal ''5'' \<and> 0 < dec_val ''5'' \<and> dec_val ''5'' \<le> 2 ^ 31
   \<and> decimal ''1'' \<and> 0 < dec_val ''1'' \<and> dec_val ''1'' \<le> 2 ^ 31
   \<and> (\<exists>r. parse ''-5/-1'' = Some r
        \<and> tv_sec (it_value r) = - 5 \<and> tv_nsec (it_value r) = - 1
        \<and> tv_sec (it_value r) < 0 \<and> tv_nsec (it_value r) < 0)"
proof -
  have d: "decimal ''5''" "decimal ''1''"
    by (simp_all add: decimal_def isdigit_def)
  have v: "dec_val ''5'' = 5" "dec_val ''1'' = 1"
    by (simp_all add: dec_val_def digit_val_def)
  have b: "0 < dec_val ''5''" "dec_val ''5'' \<le> 2 ^ 31" "0 < dec_val ''1''" "dec_val ''1'' \<le> 2 ^ 31"
    by (simp_all add: v)
  show ?thesis
    using d b negative_fields_accepted [OF d(1) b(1) b(2) d(2) b(3) b(4)] by (simp add: v)
qed

end
